theory Spec2Isabelle
  imports Main "HOL-Library.Sublist"
begin

section \<open>The alphabet table\<close>

text \<open>
  An alphabet is a JavaScript array of five-element arrays
  \<^verbatim>\<open>[symbol, winmac, sortBase, accentRank, caseValue]\<close>; the code reads the
  fields by index (\<^verbatim>\<open>s[0]\<close>, \<^verbatim>\<open>s[2]\<close>, \<^verbatim>\<open>s[3]\<close>, \<^verbatim>\<open>s[4]\<close>).
  A row is a record here. The symbol is a string (a list of code units), the
  legacy pattern is a string or \<^verbatim>\<open>null\<close>, and the three ranks are JavaScript
  Numbers holding integers, so that \<^verbatim>\<open>===\<close> and \<^verbatim>\<open>==\<close> on them are equality
  on \<^typ>\<open>int\<close>.
\<close>

record symbol_def =
  symbol :: string
  winmac :: "string option"
  sortBase :: int
  accentRank :: int
  caseValue :: int

type_synonym alphabet = "symbol_def list"

text \<open>
  Every \<^verbatim>\<open>throw new Error(...)\<close> of the module, with the values its message
  is built from.
\<close>

datatype error =
    UnknownSymbolIn char string
  | UnknownSymbol string
  | NoMatchingCharacter string
  | MultipleMatchingCharacters string
  | NoUnaccentedSymbol string

text \<open>
  \<^verbatim>\<open>zeroPad\<close> is documented for a String and called with a Number, so its
  argument is a JavaScript value of either kind.
\<close>

datatype jsval = JNum int | JStr string


section \<open>getSymbols and splitSymbols\<close>

definition getSymbols :: "alphabet \<Rightarrow> string list" where
  "getSymbols alphabet = map symbol alphabet"

text \<open>
  The inner function of \<^verbatim>\<open>splitSymbols\<close>: the loop over \<^verbatim>\<open>reference\<close>
  returns true at the first symbol whose \<^verbatim>\<open>substr(0, str.length)\<close> is
  \<^verbatim>\<open>str\<close>.
\<close>

fun validSymbolPart :: "string list \<Rightarrow> string \<Rightarrow> bool" where
  "validSymbolPart [] str = False"
| "validSymbolPart (r # reference) str =
     (if take (length str) r = str then True else validSymbolPart reference str)"

text \<open>
  The \<^verbatim>\<open>for\<close> loop of \<^verbatim>\<open>splitSymbols\<close> over the characters still to read,
  with the loop's two variables \<^verbatim>\<open>symbols\<close> and \<^verbatim>\<open>buffer\<close> as state. The
  argument \<open>str\<close> is the whole input, which the error message quotes.
\<close>

fun splitLoop ::
  "string list \<Rightarrow> string \<Rightarrow> string \<Rightarrow> string list \<Rightarrow> string \<Rightarrow> error + (string list \<times> string)"
where
  "splitLoop reference str [] symbols buffer = Inr (symbols, buffer)"
| "splitLoop reference str (ch # rest) symbols buffer =
     (if validSymbolPart reference (buffer @ [ch])
      then splitLoop reference str rest symbols (buffer @ [ch])
      else
        (let symbols' = (if buffer \<noteq> [] then symbols @ [buffer] else symbols) in
         if validSymbolPart reference [ch]
         then splitLoop reference str rest symbols' [ch]
         else Inl (UnknownSymbolIn ch str)))"

definition splitSymbols :: "alphabet \<Rightarrow> string \<Rightarrow> error + string list" where
  "splitSymbols alphabet str =
     (case splitLoop (getSymbols alphabet) str str [] [] of
        Inl e \<Rightarrow> Inl e
      | Inr (symbols, buffer) \<Rightarrow>
          Inr (if buffer \<noteq> [] then symbols @ [buffer] else symbols))"


section \<open>zeroPad, getSymbolInfo, getSortBase, sortValue\<close>

text \<open>
  The \<^verbatim>\<open>while (str.length < min)\<close> loop on a String.
\<close>

function zeroPadString :: "nat \<Rightarrow> string \<Rightarrow> string" where
  "zeroPadString min' str =
     (if length str < min' then zeroPadString min' (CHR ''0'' # str) else str)"
  by pat_completeness auto
termination
  by (relation "measure (\<lambda>(min', str). min' - length str)") auto

text \<open>
  On a Number \<^verbatim>\<open>str.length\<close> is \<^verbatim>\<open>undefined\<close>, and
  \<^verbatim>\<open>undefined < min\<close> is false: the loop body never runs and the Number is
  returned as it came.
\<close>

fun zeroPad :: "nat \<Rightarrow> jsval \<Rightarrow> jsval" where
  "zeroPad min' (JStr str) = JStr (zeroPadString min' str)"
| "zeroPad min' (JNum n) = JNum n"

text \<open>
  What \<^verbatim>\<open>value += v\<close> appends to a string: a String itself, and the decimal
  numeral of an integer Number.
\<close>

definition digitChar :: "nat \<Rightarrow> char" where
  "digitChar d = ''0123456789'' ! d"

fun natToString :: "nat \<Rightarrow> string" where
  "natToString n =
     (if n < 10 then [digitChar n] else natToString (n div 10) @ [digitChar (n mod 10)])"

definition numberToString :: "int \<Rightarrow> string" where
  "numberToString n =
     (if n < 0 then CHR ''-'' # natToString (nat (- n)) else natToString (nat n))"

fun jsToString :: "jsval \<Rightarrow> string" where
  "jsToString (JStr s) = s"
| "jsToString (JNum n) = numberToString n"

fun getSymbolInfo :: "alphabet \<Rightarrow> string \<Rightarrow> error + symbol_def" where
  "getSymbolInfo [] symb = Inl (UnknownSymbol symb)"
| "getSymbolInfo (d # alphabet) symb =
     (if symbol d = symb then Inr d else getSymbolInfo alphabet symb)"

definition getSortBase :: "alphabet \<Rightarrow> string \<Rightarrow> error + int" where
  "getSortBase alphabet symb =
     (case getSymbolInfo alphabet symb of Inl e \<Rightarrow> Inl e | Inr d \<Rightarrow> Inr (sortBase d))"

text \<open>
  The loop of \<^verbatim>\<open>sortValue\<close> over the tokens, with the accumulator
  \<^verbatim>\<open>value\<close>. \<^verbatim>\<open>getSortBase\<close> returns the table's Number, and that Number is
  what \<^verbatim>\<open>zeroPad\<close> receives.
\<close>

fun sortValueLoop :: "alphabet \<Rightarrow> string list \<Rightarrow> string \<Rightarrow> error + string" where
  "sortValueLoop alphabet [] val = Inr val"
| "sortValueLoop alphabet (s # symbols) val =
     (case getSortBase alphabet s of
        Inl e \<Rightarrow> Inl e
      | Inr sortbase \<Rightarrow>
          sortValueLoop alphabet symbols (val @ jsToString (zeroPad 2 (JNum sortbase))))"

definition sortValue :: "alphabet \<Rightarrow> string \<Rightarrow> error + string" where
  "sortValue alphabet str =
     (case splitSymbols alphabet str of
        Inl e \<Rightarrow> Inl e
      | Inr symbols \<Rightarrow> sortValueLoop alphabet symbols [])"


section \<open>setCase, toUpperCase, toLowerCase\<close>

text \<open>
  \<^verbatim>\<open>s[0]\<close> on the token string \<^verbatim>\<open>s\<close>, spliced into a message: the first
  code unit, and the text \<^verbatim>\<open>undefined\<close> for the empty string.
\<close>

fun firstChar :: "string \<Rightarrow> string" where
  "firstChar [] = ''undefined''"
| "firstChar (c # cs) = [c]"

text \<open>
  The \<^verbatim>\<open>alphabet.filter\<close> of \<^verbatim>\<open>setCase\<close>.
\<close>

definition caseFilter :: "alphabet \<Rightarrow> int \<Rightarrow> int \<Rightarrow> int \<Rightarrow> alphabet" where
  "caseFilter alphabet baseSort accentSort caseval =
     filter (\<lambda>s. sortBase s = baseSort \<and> accentRank s = accentSort \<and>
                  (caseValue s = caseval \<or> caseValue s = - 1)) alphabet"

text \<open>
  The callback that \<^verbatim>\<open>setCase\<close> maps over the tokens. In its two
  \<^verbatim>\<open>throw\<close> statements \<^verbatim>\<open>s\<close> is the token (the filter's own \<^verbatim>\<open>s\<close> is out
  of scope there), so the message quotes the token's first code unit.
\<close>

definition setCaseSymbol :: "alphabet \<Rightarrow> int \<Rightarrow> string \<Rightarrow> error + string" where
  "setCaseSymbol alphabet caseval s =
     (case getSymbolInfo alphabet s of
        Inl e \<Rightarrow> Inl e
      | Inr info \<Rightarrow>
          (case caseFilter alphabet (sortBase info) (accentRank info) caseval of
             [] \<Rightarrow> Inl (NoMatchingCharacter (firstChar s))
           | [m] \<Rightarrow> Inr (symbol m)
           | m # m' # ms \<Rightarrow> Inl (MultipleMatchingCharacters (firstChar s))))"

text \<open>
  \<^verbatim>\<open>Array.prototype.map\<close> with a callback that may throw: the elements are
  visited in order and the first exception ends the whole call.
\<close>

fun mapSymbols :: "(string \<Rightarrow> error + string) \<Rightarrow> string list \<Rightarrow> error + string list" where
  "mapSymbols f [] = Inr []"
| "mapSymbols f (s # symbols) =
     (case f s of
        Inl e \<Rightarrow> Inl e
      | Inr r \<Rightarrow> (case mapSymbols f symbols of Inl e \<Rightarrow> Inl e | Inr rs \<Rightarrow> Inr (r # rs)))"

definition setCase :: "alphabet \<Rightarrow> string \<Rightarrow> int \<Rightarrow> error + string" where
  "setCase alphabet str caseval =
     (case splitSymbols alphabet str of
        Inl e \<Rightarrow> Inl e
      | Inr symbols \<Rightarrow>
          (case mapSymbols (setCaseSymbol alphabet caseval) symbols of
             Inl e \<Rightarrow> Inl e
           | Inr newcased \<Rightarrow> Inr (concat newcased)))"

definition toUpperCase :: "alphabet \<Rightarrow> string \<Rightarrow> error + string" where
  "toUpperCase alphabet str = setCase alphabet str 1"

definition toLowerCase :: "alphabet \<Rightarrow> string \<Rightarrow> error + string" where
  "toLowerCase alphabet str = setCase alphabet str 0"


section \<open>removeSymbolAccent and stripAccents\<close>

text \<open>
  The \<^verbatim>\<open>for\<close> loop of \<^verbatim>\<open>removeSymbolAccent\<close>: it returns at the first row
  that matches and throws when the table is exhausted.
\<close>

fun removeAccentLoop :: "alphabet \<Rightarrow> symbol_def \<Rightarrow> error + string" where
  "removeAccentLoop [] d = Inl (NoUnaccentedSymbol (symbol d))"
| "removeAccentLoop (s # alphabet) d =
     (if sortBase s = sortBase d \<and> accentRank s = 0 \<and> caseValue s = caseValue d
      then Inr (symbol s)
      else removeAccentLoop alphabet d)"

definition removeSymbolAccent :: "alphabet \<Rightarrow> symbol_def \<Rightarrow> error + string" where
  "removeSymbolAccent alphabet d =
     (if accentRank d = 0 then Inr (symbol d) else removeAccentLoop alphabet d)"

text \<open>
  One round of the loop of \<^verbatim>\<open>stripAccents\<close>: the token is looked up and the
  accent of its row removed.
\<close>

definition stripSymbol :: "alphabet \<Rightarrow> string \<Rightarrow> error + string" where
  "stripSymbol alphabet t =
     (case getSymbolInfo alphabet t of
        Inl e \<Rightarrow> Inl e
      | Inr s \<Rightarrow> removeSymbolAccent alphabet s)"

fun stripAccentsLoop :: "alphabet \<Rightarrow> string list \<Rightarrow> string \<Rightarrow> error + string" where
  "stripAccentsLoop alphabet [] result = Inr result"
| "stripAccentsLoop alphabet (t # symbols) result =
     (case stripSymbol alphabet t of
        Inl e \<Rightarrow> Inl e
      | Inr r \<Rightarrow> stripAccentsLoop alphabet symbols (result @ r))"

definition stripAccents :: "alphabet \<Rightarrow> string \<Rightarrow> error + string" where
  "stripAccents alphabet str =
     (case splitSymbols alphabet str of
        Inl e \<Rightarrow> Inl e
      | Inr symbols \<Rightarrow> stripAccentsLoop alphabet symbols [])"


section \<open>Comparison of sort keys and the tables of the examples\<close>

text \<open>
  The order in which the sort keys are compared: JavaScript's \<^verbatim>\<open><\<close> on two
  strings is the lexicographic order of their code units, a proper prefix
  coming first. The same order on lists of integers ranks two texts symbol by
  symbol through their \<^verbatim>\<open>sortBase\<close> values.
\<close>

fun lexLess :: "'a::linorder list \<Rightarrow> 'a list \<Rightarrow> bool" where
  "lexLess [] [] = False"
| "lexLess [] (y # ys) = True"
| "lexLess (x # xs) [] = False"
| "lexLess (x # xs) (y # ys) = (x < y \<or> (x = y \<and> lexLess xs ys))"

definition stringLess :: "string \<Rightarrow> string \<Rightarrow> bool" where
  "stringLess s t = lexLess (map of_char s :: nat list) (map of_char t)"

text \<open>
  The alphabet of the specification's example:
  \<^verbatim>\<open>[["a",null,1,0,-1], ["b",null,2,0,0], ["B",null,2,0,1]]\<close>.
\<close>

definition exampleAlphabet :: alphabet where
  "exampleAlphabet =
     [\<lparr>symbol = ''a'', winmac = None, sortBase = 1, accentRank = 0, caseValue = - 1\<rparr>,
      \<lparr>symbol = ''b'', winmac = None, sortBase = 2, accentRank = 0, caseValue = 0\<rparr>,
      \<lparr>symbol = ''B'', winmac = None, sortBase = 2, accentRank = 0, caseValue = 1\<rparr>]"

text \<open>A table whose only symbol is the digraph \<^verbatim>\<open>ab\<close>.\<close>

definition digraphOnlyAlphabet :: alphabet where
  "digraphOnlyAlphabet =
     [\<lparr>symbol = ''ab'', winmac = None, sortBase = 1, accentRank = 0, caseValue = - 1\<rparr>]"

text \<open>A table with a one-digit and a two-digit \<^verbatim>\<open>sortBase\<close>.\<close>

definition orderAlphabet :: alphabet where
  "orderAlphabet =
     [\<lparr>symbol = ''a'', winmac = None, sortBase = 2, accentRank = 0, caseValue = - 1\<rparr>,
      \<lparr>symbol = ''b'', winmac = None, sortBase = 10, accentRank = 0, caseValue = - 1\<rparr>]"

text \<open>A table whose only symbol is the digraph \<^verbatim>\<open>az\<close>: it has no symbol \<^verbatim>\<open>z\<close>.\<close>

definition azAlphabet :: alphabet where
  "azAlphabet =
     [\<lparr>symbol = ''az'', winmac = None, sortBase = 1, accentRank = 0, caseValue = - 1\<rparr>]"


text \<open>
  A table in which \<^verbatim>\<open>b\<close> has no upper-case row and \<^verbatim>\<open>c\<close> has two.
\<close>

definition caseTable :: alphabet where
  "caseTable =
     [\<lparr>symbol = ''b'', winmac = None, sortBase = 2, accentRank = 0, caseValue = 0\<rparr>,
      \<lparr>symbol = ''c'', winmac = None, sortBase = 3, accentRank = 0, caseValue = 0\<rparr>,
      \<lparr>symbol = ''C'', winmac = None, sortBase = 3, accentRank = 0, caseValue = 1\<rparr>,
      \<lparr>symbol = ''K'', winmac = None, sortBase = 3, accentRank = 0, caseValue = 1\<rparr>]"

text \<open>
  A table in which the accented lower-case \<^verbatim>\<open>E\<close> has two unaccented rows of
  its rank and case, \<^verbatim>\<open>e\<close> and \<^verbatim>\<open>f\<close>, and an accented upper-case row
  would have none.
\<close>

definition accentTable :: alphabet where
  "accentTable =
     [\<lparr>symbol = ''E'', winmac = None, sortBase = 1, accentRank = 1, caseValue = 0\<rparr>,
      \<lparr>symbol = ''e'', winmac = None, sortBase = 1, accentRank = 0, caseValue = 0\<rparr>,
      \<lparr>symbol = ''f'', winmac = None, sortBase = 1, accentRank = 0, caseValue = 0\<rparr>]"

definition accentedE :: symbol_def where
  "accentedE = \<lparr>symbol = ''E'', winmac = None, sortBase = 1, accentRank = 1, caseValue = 0\<rparr>"

definition accentedCapital :: symbol_def where
  "accentedCapital =
     \<lparr>symbol = ''X'', winmac = None, sortBase = 1, accentRank = 1, caseValue = 1\<rparr>"

text \<open>
  A table with distinct symbols and one row for each rank, accent and case,
  in which the upper-case form of \<^verbatim>\<open>z\<close> is the digraph \<^verbatim>\<open>SS\<close>.
\<close>

definition sharpTable :: alphabet where
  "sharpTable =
     [\<lparr>symbol = ''s'', winmac = None, sortBase = 1, accentRank = 0, caseValue = 0\<rparr>,
      \<lparr>symbol = ''S'', winmac = None, sortBase = 1, accentRank = 0, caseValue = 1\<rparr>,
      \<lparr>symbol = ''z'', winmac = None, sortBase = 2, accentRank = 0, caseValue = 0\<rparr>,
      \<lparr>symbol = ''SS'', winmac = None, sortBase = 2, accentRank = 0, caseValue = 1\<rparr>]"

text \<open>
  A table with distinct symbols in which \<^verbatim>\<open>a\<close> has the two accented forms
  \<^verbatim>\<open>A\<close> and \<^verbatim>\<open>aa\<close>.
\<close>

definition longAccentTable :: alphabet where
  "longAccentTable =
     [\<lparr>symbol = ''a'', winmac = None, sortBase = 1, accentRank = 0, caseValue = 0\<rparr>,
      \<lparr>symbol = ''A'', winmac = None, sortBase = 1, accentRank = 1, caseValue = 0\<rparr>,
      \<lparr>symbol = ''aa'', winmac = None, sortBase = 1, accentRank = 2, caseValue = 0\<rparr>]"


section \<open>Facts about the tokenizer\<close>

lemma validSymbolPart_take:
  "validSymbolPart reference str \<longleftrightarrow> (\<exists>r \<in> set reference. take (length str) r = str)"
  by (induction reference) auto

lemma take_eq_prefix: "take (length str) r = str \<longleftrightarrow> prefix str r"
  by (metis append_eq_conv_conj prefix_def take_is_prefix)

lemma validSymbolPart_prefix:
  "validSymbolPart (getSymbols alphabet) str \<longleftrightarrow> (\<exists>d \<in> set alphabet. prefix str (symbol d))"
  by (simp add: validSymbolPart_take getSymbols_def take_eq_prefix)

text \<open>
  The loop's invariant: the tokens pushed so far, the buffer and the
  characters still to read always spell the same string.
\<close>

lemma splitLoop_concat:
  "splitLoop reference str rest symbols buffer = Inr (symbols', buffer') \<Longrightarrow>
   concat symbols' @ buffer' = concat symbols @ buffer @ rest"
proof (induction rest arbitrary: symbols buffer)
  case Nil
  then show ?case by simp
next
  case (Cons ch rest)
  show ?case
  proof (cases "validSymbolPart reference (buffer @ [ch])")
    case True
    with Cons.prems
    have "splitLoop reference str rest symbols (buffer @ [ch]) = Inr (symbols', buffer')"
      by simp
    from Cons.IH [OF this] show ?thesis by simp
  next
    case False
    with Cons.prems have v: "validSymbolPart reference [ch]"
      by (auto simp: Let_def split: if_splits)
    with False Cons.prems
    have "splitLoop reference str rest (if buffer \<noteq> [] then symbols @ [buffer] else symbols) [ch]
            = Inr (symbols', buffer')"
      by (simp add: Let_def)
    from Cons.IH [OF this] show ?thesis by simp
  qed
qed

lemma splitSymbols_concat_tokens:
  "splitSymbols alphabet str = Inr tokens \<Longrightarrow> concat tokens = str"
  by (auto simp: splitSymbols_def split: sum.splits prod.splits if_splits dest: splitLoop_concat)

text \<open>Running the loop over \<open>xs @ ys\<close> is running it over \<open>xs\<close> and then over \<open>ys\<close>.\<close>

lemma splitLoop_append:
  "splitLoop reference str (xs @ ys) symbols buffer =
     (case splitLoop reference str xs symbols buffer of
        Inl e \<Rightarrow> Inl e
      | Inr (symbols', buffer') \<Rightarrow> splitLoop reference str ys symbols' buffer')"
  by (induction xs arbitrary: symbols buffer) (simp_all add: Let_def)

text \<open>
  The loop throws exactly when it reaches a character that neither extends
  the buffer it holds at that moment nor starts a new one.
\<close>

lemma splitLoop_Inl_iff:
  "splitLoop reference str rest symbols buffer = Inl e \<longleftrightarrow>
   (\<exists>pre ch post symbols' buffer'.
      rest = pre @ ch # post \<and>
      splitLoop reference str pre symbols buffer = Inr (symbols', buffer') \<and>
      \<not> validSymbolPart reference (buffer' @ [ch]) \<and>
      \<not> validSymbolPart reference [ch] \<and>
      e = UnknownSymbolIn ch str)"
  (is "?L rest symbols buffer \<longleftrightarrow> ?R rest symbols buffer")
proof
  assume "?R rest symbols buffer"
  then show "?L rest symbols buffer"
    by (auto simp: splitLoop_append Let_def)
next
  show "?L rest symbols buffer \<Longrightarrow> ?R rest symbols buffer"
  proof (induction rest arbitrary: symbols buffer)
    case Nil
    then show ?case by simp
  next
    case (Cons c rest)
    show ?case
    proof (cases "validSymbolPart reference (buffer @ [c])")
      case True
      with Cons.prems have "?L rest symbols (buffer @ [c])" by simp
      from Cons.IH [OF this] obtain pre ch post symbols' buffer' where
        h: "rest = pre @ ch # post"
           "splitLoop reference str pre symbols (buffer @ [c]) = Inr (symbols', buffer')"
           "\<not> validSymbolPart reference (buffer' @ [ch])"
           "\<not> validSymbolPart reference [ch]" "e = UnknownSymbolIn ch str"
        by blast
      from h(1) have "c # rest = (c # pre) @ ch # post" by simp
      moreover from h(2) True
      have "splitLoop reference str (c # pre) symbols buffer = Inr (symbols', buffer')" by simp
      ultimately show ?thesis using h(3,4,5) by blast
    next
      case False
      show ?thesis
      proof (cases "validSymbolPart reference [c]")
        case v: True
        let ?s = "if buffer \<noteq> [] then symbols @ [buffer] else symbols"
        from Cons.prems False v have "?L rest ?s [c]" by (simp add: Let_def)
        from Cons.IH [OF this] obtain pre ch post symbols' buffer' where
          h: "rest = pre @ ch # post"
             "splitLoop reference str pre ?s [c] = Inr (symbols', buffer')"
             "\<not> validSymbolPart reference (buffer' @ [ch])"
             "\<not> validSymbolPart reference [ch]" "e = UnknownSymbolIn ch str"
          by blast
        from h(1) have "c # rest = (c # pre) @ ch # post" by simp
        moreover from h(2) False v
        have "splitLoop reference str (c # pre) symbols buffer = Inr (symbols', buffer')"
          by (simp add: Let_def)
        ultimately show ?thesis using h(3,4,5) by blast
      next
        case nv: False
        with Cons.prems False have "e = UnknownSymbolIn c str" by (simp add: Let_def)
        moreover have "c # rest = [] @ c # rest" by simp
        moreover have "splitLoop reference str [] symbols buffer = Inr (symbols, buffer)" by simp
        ultimately show ?thesis using False nv by blast
      qed
    qed
  qed
qed

text \<open>
  What the loop does guarantee of a token: it is not empty and it is a prefix
  of some symbol of the table.
\<close>

lemma splitLoop_tokens:
  "splitLoop reference str rest symbols buffer = Inr (symbols', buffer') \<Longrightarrow>
   \<forall>t \<in> set symbols. t \<noteq> [] \<and> validSymbolPart reference t \<Longrightarrow>
   buffer = [] \<or> validSymbolPart reference buffer \<Longrightarrow>
   (\<forall>t \<in> set symbols'. t \<noteq> [] \<and> validSymbolPart reference t) \<and>
   (buffer' = [] \<or> validSymbolPart reference buffer')"
proof (induction rest arbitrary: symbols buffer)
  case Nil
  then show ?case by simp
next
  case (Cons ch rest)
  show ?case
  proof (cases "validSymbolPart reference (buffer @ [ch])")
    case True
    with Cons.prems(1)
    have "splitLoop reference str rest symbols (buffer @ [ch]) = Inr (symbols', buffer')"
      by simp
    from Cons.IH [OF this Cons.prems(2)] True show ?thesis by simp
  next
    case False
    with Cons.prems(1) have v: "validSymbolPart reference [ch]"
      by (auto simp: Let_def split: if_splits)
    let ?s = "if buffer \<noteq> [] then symbols @ [buffer] else symbols"
    from False v Cons.prems(1)
    have run: "splitLoop reference str rest ?s [ch] = Inr (symbols', buffer')"
      by (simp add: Let_def)
    have inv: "\<forall>t \<in> set ?s. t \<noteq> [] \<and> validSymbolPart reference t"
      using Cons.prems(2,3) by auto
    from Cons.IH [OF run inv] v show ?thesis by simp
  qed
qed

lemma splitSymbols_tokens_are_prefixes:
  assumes "splitSymbols alphabet str = Inr tokens" and "t \<in> set tokens"
  shows "t \<noteq> [] \<and> (\<exists>d \<in> set alphabet. prefix t (symbol d))"
proof -
  from assms(1) obtain symbols buffer where
    run: "splitLoop (getSymbols alphabet) str str [] [] = Inr (symbols, buffer)" and
    tk: "tokens = (if buffer \<noteq> [] then symbols @ [buffer] else symbols)"
    by (auto simp: splitSymbols_def split: sum.splits prod.splits)
  from splitLoop_tokens [OF run] have
    "(\<forall>t \<in> set symbols. t \<noteq> [] \<and> validSymbolPart (getSymbols alphabet) t) \<and>
     (buffer = [] \<or> validSymbolPart (getSymbols alphabet) buffer)"
    by simp
  with assms(2) tk have "t \<noteq> [] \<and> validSymbolPart (getSymbols alphabet) t"
    by (auto split: if_splits)
  then show ?thesis by (simp add: validSymbolPart_prefix)
qed


section \<open>Tokenization\<close>

text \<open>
  C3. Whenever \<^verbatim>\<open>splitSymbols(alphabet, text)\<close> returns, the tokens it returns,
  concatenated in order, are exactly \<open>text\<close>.
\<close>

theorem splitSymbols_roundtrip:
  "splitSymbols alphabet text = Inr tokens \<Longrightarrow> concat tokens = text"
  by (rule splitSymbols_concat_tokens)

theorem splitSymbols_roundtrip_witness:
  "splitSymbols exampleAlphabet ''aB'' = Inr [''a'', ''B''] \<and> concat [''a'', ''B''] = ''aB''"
proof -
  have h: "splitSymbols exampleAlphabet ''aB'' = Inr [''a'', ''B'']"
    by (simp add: exampleAlphabet_def splitSymbols_def getSymbols_def)
  from h splitSymbols_roundtrip [OF h] show ?thesis by simp
qed

text \<open>
  C2. The claim is that every token \<^verbatim>\<open>splitSymbols\<close> returns is the symbol of
  some row. The code pushes the buffer without looking it up: with a table
  whose only symbol is \<^verbatim>\<open>ab\<close>, the text \<^verbatim>\<open>a\<close> is returned as the token
  \<^verbatim>\<open>a\<close>, which no row defines and \<^verbatim>\<open>getSymbolInfo\<close> rejects.
\<close>

theorem splitSymbols_emits_undefined_token:
  "splitSymbols digraphOnlyAlphabet ''a'' = Inr [''a''] \<and>
   ''a'' \<notin> set (getSymbols digraphOnlyAlphabet) \<and>
   getSymbolInfo digraphOnlyAlphabet ''a'' = Inl (UnknownSymbol ''a'')"
  by (simp add: digraphOnlyAlphabet_def splitSymbols_def getSymbols_def)

text \<open>
  C5, as stated. An alphabet without the symbol \<^verbatim>\<open>z\<close> need not reject
  \<^verbatim>\<open>az\<close>: where \<^verbatim>\<open>az\<close> is itself a symbol, the text is one token.
\<close>

theorem splitSymbols_az_counterexample:
  "''z'' \<notin> set (getSymbols azAlphabet) \<and> splitSymbols azAlphabet ''az'' = Inr [''az'']"
  by (simp add: azAlphabet_def splitSymbols_def getSymbols_def)

text \<open>
  C5, amended. \<^verbatim>\<open>splitSymbols(alphabet, text)\<close> throws the error \<open>e\<close> if and
  only if \<open>text\<close> has a character \<open>ch\<close> such that, with the buffer the loop holds
  after the characters before it, neither the buffer extended by \<open>ch\<close> nor
  \<open>ch\<close> alone is a prefix of a symbol of the table; \<open>e\<close> then carries \<open>ch\<close> and
  the whole text. In particular, for an alphabet in which some symbol begins
  with \<^verbatim>\<open>a\<close> and no symbol begins with \<^verbatim>\<open>az\<close> or with \<^verbatim>\<open>z\<close>, splitting
  \<^verbatim>\<open>az\<close> throws the error that carries \<^verbatim>\<open>z\<close> and \<^verbatim>\<open>az\<close>.
\<close>

theorem splitSymbols_raises_iff:
  "(splitSymbols alphabet text = Inl e \<longleftrightarrow>
      (\<exists>pre ch post symbols buffer.
         text = pre @ ch # post \<and>
         splitLoop (getSymbols alphabet) text pre [] [] = Inr (symbols, buffer) \<and>
         \<not> (\<exists>d \<in> set alphabet. prefix (buffer @ [ch]) (symbol d)) \<and>
         \<not> (\<exists>d \<in> set alphabet. prefix [ch] (symbol d)) \<and>
         e = UnknownSymbolIn ch text)) \<and>
   ((\<exists>d \<in> set alphabet. prefix ''a'' (symbol d)) \<and>
    \<not> (\<exists>d \<in> set alphabet. prefix ''az'' (symbol d)) \<and>
    \<not> (\<exists>d \<in> set alphabet. prefix ''z'' (symbol d)) \<longrightarrow>
    splitSymbols alphabet ''az'' = Inl (UnknownSymbolIn CHR ''z'' ''az''))"
proof
  have "splitSymbols alphabet text = Inl e \<longleftrightarrow>
        splitLoop (getSymbols alphabet) text text [] [] = Inl e"
    by (simp add: splitSymbols_def split: sum.splits prod.splits)
  then show "splitSymbols alphabet text = Inl e \<longleftrightarrow>
      (\<exists>pre ch post symbols buffer.
         text = pre @ ch # post \<and>
         splitLoop (getSymbols alphabet) text pre [] [] = Inr (symbols, buffer) \<and>
         \<not> (\<exists>d \<in> set alphabet. prefix (buffer @ [ch]) (symbol d)) \<and>
         \<not> (\<exists>d \<in> set alphabet. prefix [ch] (symbol d)) \<and>
         e = UnknownSymbolIn ch text)"
    by (simp only: splitLoop_Inl_iff validSymbolPart_prefix)
next
  show "(\<exists>d \<in> set alphabet. prefix ''a'' (symbol d)) \<and>
    \<not> (\<exists>d \<in> set alphabet. prefix ''az'' (symbol d)) \<and>
    \<not> (\<exists>d \<in> set alphabet. prefix ''z'' (symbol d)) \<longrightarrow>
    splitSymbols alphabet ''az'' = Inl (UnknownSymbolIn CHR ''z'' ''az'')"
    by (simp only: validSymbolPart_prefix [symmetric]) (simp add: splitSymbols_def)
qed

theorem splitSymbols_raises_witness:
  "splitSymbols exampleAlphabet ''az'' = Inl (UnknownSymbolIn CHR ''z'' ''az'')"
proof -
  have "(\<exists>d \<in> set exampleAlphabet. prefix ''a'' (symbol d)) \<and>
    \<not> (\<exists>d \<in> set exampleAlphabet. prefix ''az'' (symbol d)) \<and>
    \<not> (\<exists>d \<in> set exampleAlphabet. prefix ''z'' (symbol d))"
    by (simp add: exampleAlphabet_def)
  with splitSymbols_raises_iff [of exampleAlphabet] show ?thesis by blast
qed


section \<open>Sort keys\<close>

text \<open>
  The key \<^verbatim>\<open>sortValue\<close> builds is the decimal numerals of the tokens'
  \<^verbatim>\<open>sortBase\<close> values, one after the other, at whatever width they have.
\<close>

lemma sortValueLoop_numerals:
  "sortValueLoop alphabet tokens val = Inr out \<Longrightarrow>
   \<exists>bases. list_all2 (\<lambda>t b. getSortBase alphabet t = Inr b) tokens bases \<and>
           out = val @ concat (map numberToString bases)"
proof (induction tokens arbitrary: val)
  case Nil
  then show ?case by simp
next
  case (Cons t tokens)
  from Cons.prems obtain b where b: "getSortBase alphabet t = Inr b"
    and run: "sortValueLoop alphabet tokens (val @ numberToString b) = Inr out"
    by (auto split: sum.splits)
  from Cons.IH [OF run] obtain bases where
    "list_all2 (\<lambda>t b. getSortBase alphabet t = Inr b) tokens bases"
    "out = (val @ numberToString b) @ concat (map numberToString bases)"
    by blast
  with b have "list_all2 (\<lambda>t b. getSortBase alphabet t = Inr b) (t # tokens) (b # bases) \<and>
      out = val @ concat (map numberToString (b # bases))"
    by simp
  then show ?case by blast
qed

text \<open>
  C1. The claim is that each \<^verbatim>\<open>sortBase\<close> is padded with zeros to two digits,
  so that \<^verbatim>\<open>aB\<close> has the key \<^verbatim>\<open>0102\<close> in the example alphabet.
  \<^verbatim>\<open>zeroPad\<close> pads a String, but \<^verbatim>\<open>sortValue\<close> hands it the Number that
  \<^verbatim>\<open>getSortBase\<close> returns, which comes back unpadded: the key is \<^verbatim>\<open>12\<close>.
\<close>

theorem sortValue_example_unpadded:
  "zeroPad 2 (JStr ''1'') = JStr ''01'' \<and>
   zeroPad 2 (JNum 1) = JNum 1 \<and>
   splitSymbols exampleAlphabet ''aB'' = Inr [''a'', ''B''] \<and>
   sortValue exampleAlphabet ''aB'' = Inr ''12''"
  by (simp add: exampleAlphabet_def sortValue_def splitSymbols_def getSymbols_def
        getSortBase_def numberToString_def digitChar_def)

text \<open>
  C4. The claim is that a text whose \<^verbatim>\<open>sortBase\<close> sequence comes first has
  the smaller key. With the ranks 2 and 10 the keys are \<^verbatim>\<open>2\<close> and \<^verbatim>\<open>10\<close>,
  and \<^verbatim>\<open>10\<close> is the smaller string.
\<close>

theorem sortValue_order_reversed:
  "getSortBase orderAlphabet ''a'' = Inr 2 \<and>
   getSortBase orderAlphabet ''b'' = Inr 10 \<and>
   lexLess [2 :: int] [10] \<and>
   sortValue orderAlphabet ''a'' = Inr ''2'' \<and>
   sortValue orderAlphabet ''b'' = Inr ''10'' \<and>
   \<not> stringLess ''2'' ''10'' \<and>
   stringLess ''10'' ''2''"
  by (simp add: orderAlphabet_def sortValue_def splitSymbols_def getSymbols_def
        getSortBase_def numberToString_def digitChar_def stringLess_def)


section \<open>Facts about the table lookups\<close>

lemma getSymbolInfo_Inr:
  "getSymbolInfo alphabet t = Inr d \<Longrightarrow> d \<in> set alphabet \<and> symbol d = t"
  by (induction alphabet) (auto split: if_splits)

lemma getSymbolInfo_distinct:
  "distinct (getSymbols alphabet) \<Longrightarrow> d \<in> set alphabet \<Longrightarrow> getSymbolInfo alphabet (symbol d) = Inr d"
  by (induction alphabet) (auto simp: getSymbols_def)

lemma mapSymbols_append:
  "mapSymbols f (xs @ ys) =
     (case mapSymbols f xs of
        Inl e \<Rightarrow> Inl e
      | Inr rs \<Rightarrow> (case mapSymbols f ys of Inl e \<Rightarrow> Inl e | Inr rs' \<Rightarrow> Inr (rs @ rs')))"
  by (induction xs) (auto split: sum.splits)

lemma mapSymbols_Inr_all:
  "mapSymbols f xs = Inr rs \<Longrightarrow> x \<in> set xs \<Longrightarrow> \<exists>r. f x = Inr r"
  by (induction xs arbitrary: rs) (auto split: sum.splits)


section \<open>Case conversion\<close>

lemma setCaseSymbol_Inr:
  "setCaseSymbol alphabet caseval s = Inr r \<Longrightarrow>
   \<exists>info m. getSymbolInfo alphabet s = Inr info \<and>
     caseFilter alphabet (sortBase info) (accentRank info) caseval = [m] \<and> r = symbol m"
  by (auto simp: setCaseSymbol_def split: sum.splits list.splits)

lemma caseFilter_single:
  assumes "caseFilter alphabet b a c = [m]"
  shows "m \<in> set alphabet \<and> sortBase m = b \<and> accentRank m = a"
proof -
  have "m \<in> set (caseFilter alphabet b a c)" by (simp add: assms)
  then show ?thesis by (simp add: caseFilter_def)
qed

lemma setCaseSymbol_recase:
  assumes dist: "distinct (getSymbols alphabet)"
      and up: "setCaseSymbol alphabet c t = Inr u"
  shows "setCaseSymbol alphabet c' u = Inr l \<longleftrightarrow> setCaseSymbol alphabet c' t = Inr l"
proof -
  from setCaseSymbol_Inr [OF up] obtain info m where
    i: "getSymbolInfo alphabet t = Inr info" and
    f: "caseFilter alphabet (sortBase info) (accentRank info) c = [m]" and u: "u = symbol m"
    by blast
  from caseFilter_single [OF f] have m: "m \<in> set alphabet" "sortBase m = sortBase info"
    "accentRank m = accentRank info" by simp_all
  from getSymbolInfo_distinct [OF dist m(1)] have "getSymbolInfo alphabet u = Inr m"
    by (simp add: u)
  then show ?thesis
    by (simp add: setCaseSymbol_def i m(2,3) split: list.splits)
qed

lemma mapSymbols_transfer:
  "(\<And>t u l. t \<in> set toks \<Longrightarrow> f t = Inr u \<Longrightarrow> g u = Inr l \<longleftrightarrow> h t = Inr l) \<Longrightarrow>
   mapSymbols f toks = Inr us \<Longrightarrow>
   mapSymbols g us = Inr ls \<longleftrightarrow> mapSymbols h toks = Inr ls"
proof (induction toks arbitrary: us ls)
  case Nil
  then show ?case by auto
next
  case (Cons t toks)
  from Cons.prems(2) obtain u us' where
    u: "f t = Inr u" and us': "mapSymbols f toks = Inr us'" and us: "us = u # us'"
    by (auto split: sum.splits)
  have step: "\<And>l. g u = Inr l \<longleftrightarrow> h t = Inr l"
    using Cons.prems(1) [of t u] u by simp
  have rest: "mapSymbols g us' = Inr ls' \<longleftrightarrow> mapSymbols h toks = Inr ls'" for ls'
  proof (rule Cons.IH [OF _ us'])
    fix t' u' l'
    assume "t' \<in> set toks" "f t' = Inr u'"
    then show "g u' = Inr l' \<longleftrightarrow> h t' = Inr l'"
      using Cons.prems(1) [of t' u' l'] by simp
  qed
  show ?case
  proof
    assume "mapSymbols g us = Inr ls"
    then obtain l ls' where g: "g u = Inr l" "mapSymbols g us' = Inr ls'" and ls: "ls = l # ls'"
      by (auto simp: us split: sum.splits)
    from g(1) step have "h t = Inr l" by blast
    moreover from g(2) rest have "mapSymbols h toks = Inr ls'" by blast
    ultimately show "mapSymbols h (t # toks) = Inr ls" by (simp add: ls)
  next
    assume "mapSymbols h (t # toks) = Inr ls"
    then obtain l ls' where h: "h t = Inr l" "mapSymbols h toks = Inr ls'" and ls: "ls = l # ls'"
      by (auto split: sum.splits)
    from h(1) step have "g u = Inr l" by blast
    moreover from h(2) rest have "mapSymbols g us' = Inr ls'" by blast
    ultimately show "mapSymbols g us = Inr ls" by (simp add: us ls)
  qed
qed

lemma setCase_Inr_iff:
  "splitSymbols alphabet str = Inr toks \<Longrightarrow>
   setCase alphabet str c = Inr out \<longleftrightarrow>
   (\<exists>rs. mapSymbols (setCaseSymbol alphabet c) toks = Inr rs \<and> out = concat rs)"
  by (auto simp: setCase_def split: sum.splits)

text \<open>
  C6. Let \<open>t\<close> be a token of \<open>text\<close> that \<^verbatim>\<open>setCase\<close> reaches (the tokens
  before it resolved) and \<open>info\<close> its row, and let \<open>matches\<close> be the rows of the
  whole table with the \<^verbatim>\<open>sortBase\<close> and \<^verbatim>\<open>accentRank\<close> of \<open>info\<close> and a
  \<^verbatim>\<open>caseValue\<close> equal to the target case or to \<open>-1\<close>. With no such row
  \<^verbatim>\<open>setCase\<close> throws the no-matching-character error, with more than one it
  throws the multiple-matching-characters error, and with exactly one the
  token is replaced by that row's symbol. A call that returns has found exactly
  one row for every token: no ambiguity is settled by taking the first match.
\<close>

theorem setCase_resolution:
  assumes toks: "splitSymbols alphabet text = Inr (before @ t # after)"
      and bef: "mapSymbols (setCaseSymbol alphabet caseval) before = Inr resolved"
      and info: "getSymbolInfo alphabet t = Inr info"
      and cv: "caseval = 0 \<or> caseval = 1"
      and ms: "matches = filter (\<lambda>s. sortBase s = sortBase info \<and> accentRank s = accentRank info \<and>
                  (caseValue s = caseval \<or> caseValue s = - 1)) alphabet"
  shows "(matches = [] \<longrightarrow>
            setCase alphabet text caseval = Inl (NoMatchingCharacter (firstChar t))) \<and>
         (1 < length matches \<longrightarrow>
            setCase alphabet text caseval = Inl (MultipleMatchingCharacters (firstChar t))) \<and>
         (\<forall>m. matches = [m] \<longrightarrow>
            setCase alphabet text caseval =
              (case mapSymbols (setCaseSymbol alphabet caseval) after of
                 Inl e \<Rightarrow> Inl e
               | Inr rest \<Rightarrow> Inr (concat resolved @ symbol m @ concat rest))) \<and>
         (\<forall>out. setCase alphabet text caseval = Inr out \<longrightarrow>
            (\<forall>t' \<in> set (before @ t # after). \<exists>info' m'.
               getSymbolInfo alphabet t' = Inr info' \<and>
               filter (\<lambda>s. sortBase s = sortBase info' \<and> accentRank s = accentRank info' \<and>
                  (caseValue s = caseval \<or> caseValue s = - 1)) alphabet = [m']))"
proof -
  let ?f = "setCaseSymbol alphabet caseval"
  have cf: "caseFilter alphabet (sortBase info) (accentRank info) caseval = matches"
    by (simp add: caseFilter_def ms)
  have whole: "setCase alphabet text caseval =
      (case ?f t of
         Inl e \<Rightarrow> Inl e
       | Inr r \<Rightarrow> (case mapSymbols ?f after of
                     Inl e \<Rightarrow> Inl e
                   | Inr rest \<Rightarrow> Inr (concat resolved @ r @ concat rest)))"
    by (simp add: setCase_def toks mapSymbols_append bef split: sum.splits)
  have a: "matches = [] \<longrightarrow>
            setCase alphabet text caseval = Inl (NoMatchingCharacter (firstChar t))"
    by (simp add: whole setCaseSymbol_def info cf)
  have b: "1 < length matches \<longrightarrow>
            setCase alphabet text caseval = Inl (MultipleMatchingCharacters (firstChar t))"
    by (cases matches rule: remdups_adj.cases) (simp_all add: whole setCaseSymbol_def info cf)
  have c: "\<forall>m. matches = [m] \<longrightarrow>
            setCase alphabet text caseval =
              (case mapSymbols ?f after of
                 Inl e \<Rightarrow> Inl e
               | Inr rest \<Rightarrow> Inr (concat resolved @ symbol m @ concat rest))"
    by (simp add: whole setCaseSymbol_def info cf)
  have d: "\<forall>out. setCase alphabet text caseval = Inr out \<longrightarrow>
            (\<forall>t' \<in> set (before @ t # after). \<exists>info' m'.
               getSymbolInfo alphabet t' = Inr info' \<and>
               filter (\<lambda>s. sortBase s = sortBase info' \<and> accentRank s = accentRank info' \<and>
                  (caseValue s = caseval \<or> caseValue s = - 1)) alphabet = [m'])"
  proof (intro allI impI ballI)
    fix out t'
    assume ok: "setCase alphabet text caseval = Inr out" and mem: "t' \<in> set (before @ t # after)"
    from ok obtain rs where "mapSymbols ?f (before @ t # after) = Inr rs"
      by (auto simp: setCase_def toks split: sum.splits)
    from mapSymbols_Inr_all [OF this mem] obtain r where "?f t' = Inr r" by blast
    from setCaseSymbol_Inr [OF this]
    show "\<exists>info' m'.
               getSymbolInfo alphabet t' = Inr info' \<and>
               filter (\<lambda>s. sortBase s = sortBase info' \<and> accentRank s = accentRank info' \<and>
                  (caseValue s = caseval \<or> caseValue s = - 1)) alphabet = [m']"
      by (auto simp: caseFilter_def)
  qed
  from a b c d show ?thesis by blast
qed

theorem setCase_resolution_witness:
  "setCase caseTable ''b'' 1 = Inl (NoMatchingCharacter ''b'') \<and>
   setCase caseTable ''c'' 1 = Inl (MultipleMatchingCharacters ''c'') \<and>
   setCase caseTable ''bCK'' 0 = Inr ''bcc''"
proof -
  have one: "(1 :: int) = 0 \<or> (1 :: int) = 1" and zero: "(0 :: int) = 0 \<or> (0 :: int) = 1"
    by simp_all
  have s1: "splitSymbols caseTable ''b'' = Inr ([] @ ''b'' # [])"
    and s2: "splitSymbols caseTable ''c'' = Inr ([] @ ''c'' # [])"
    and s3: "splitSymbols caseTable ''bCK'' = Inr ([''b''] @ ''C'' # [''K''])"
    by (simp_all add: caseTable_def splitSymbols_def getSymbols_def)
  have m1: "mapSymbols (setCaseSymbol caseTable 1) [] = Inr []"
    by simp
  have m3: "mapSymbols (setCaseSymbol caseTable 0) [''b''] = Inr [''b'']"
    and a3: "mapSymbols (setCaseSymbol caseTable 0) [''K''] = Inr [''c'']"
    by (simp_all add: caseTable_def setCaseSymbol_def caseFilter_def)
  have i1: "getSymbolInfo caseTable ''b'' =
      Inr \<lparr>symbol = ''b'', winmac = None, sortBase = 2, accentRank = 0, caseValue = 0\<rparr>"
    and i2: "getSymbolInfo caseTable ''c'' =
      Inr \<lparr>symbol = ''c'', winmac = None, sortBase = 3, accentRank = 0, caseValue = 0\<rparr>"
    and i3: "getSymbolInfo caseTable ''C'' =
      Inr \<lparr>symbol = ''C'', winmac = None, sortBase = 3, accentRank = 0, caseValue = 1\<rparr>"
    by (simp_all add: caseTable_def)
  have "setCase caseTable ''b'' 1 = Inl (NoMatchingCharacter ''b'')"
    using setCase_resolution [OF s1 m1 i1 one refl] by (simp add: caseTable_def)
  moreover have "setCase caseTable ''c'' 1 = Inl (MultipleMatchingCharacters ''c'')"
    using setCase_resolution [OF s2 m1 i2 one refl] by (simp add: caseTable_def)
  moreover have "setCase caseTable ''bCK'' 0 = Inr ''bcc''"
    using setCase_resolution [OF s3 m3 i3 zero refl] a3 by (simp add: caseTable_def)
  ultimately show ?thesis by simp
qed

text \<open>
  C8, as stated. In \<open>sharpTable\<close> the text \<^verbatim>\<open>ss\<close> is made of the lower-case
  symbol \<^verbatim>\<open>s\<close> only and every conversion returns, but its upper-case form
  \<^verbatim>\<open>SS\<close> is read back as the one digraph \<^verbatim>\<open>SS\<close>, whose lower-case form is
  \<^verbatim>\<open>z\<close>.
\<close>

theorem lower_of_upper_counterexample:
  "splitSymbols sharpTable ''ss'' = Inr [''s'', ''s''] \<and>
   getSymbolInfo sharpTable ''s'' =
     Inr \<lparr>symbol = ''s'', winmac = None, sortBase = 1, accentRank = 0, caseValue = 0\<rparr> \<and>
   toLowerCase sharpTable ''ss'' = Inr ''ss'' \<and>
   toUpperCase sharpTable ''ss'' = Inr ''SS'' \<and>
   toLowerCase sharpTable ''SS'' = Inr ''z''"
  by (simp add: sharpTable_def toLowerCase_def toUpperCase_def setCase_def splitSymbols_def
        getSymbols_def setCaseSymbol_def caseFilter_def)

text \<open>
  C8, amended. Let the symbols of the table be pairwise distinct, let \<open>text\<close>
  consist of symbols whose \<^verbatim>\<open>caseValue\<close> is 0 or 1, let \<^verbatim>\<open>toUpperCase\<close>
  return on it, and let its result split into exactly the upper-case symbols
  that replaced the tokens of \<open>text\<close>. Then \<^verbatim>\<open>toLowerCase\<close> returns a value
  on that result exactly when it returns it on \<open>text\<close>.
\<close>

theorem lower_of_upper:
  assumes dist: "distinct (getSymbols alphabet)"
      and toks: "splitSymbols alphabet text = Inr tokens"
      and cased: "\<forall>t \<in> set tokens. \<exists>d. getSymbolInfo alphabet t = Inr d \<and>
                     (caseValue d = 0 \<or> caseValue d = 1)"
      and ups: "mapSymbols (setCaseSymbol alphabet 1) tokens = Inr uppers"
      and retok: "splitSymbols alphabet (concat uppers) = Inr uppers"
  shows "toUpperCase alphabet text = Inr (concat uppers) \<and>
         (toLowerCase alphabet (concat uppers) = Inr lower \<longleftrightarrow>
          toLowerCase alphabet text = Inr lower)"
proof -
  have up: "toUpperCase alphabet text = Inr (concat uppers)"
    by (simp add: toUpperCase_def setCase_def toks ups)
  have "\<And>ls. mapSymbols (setCaseSymbol alphabet 0) uppers = Inr ls \<longleftrightarrow>
             mapSymbols (setCaseSymbol alphabet 0) tokens = Inr ls"
    by (rule mapSymbols_transfer [OF _ ups]) (rule setCaseSymbol_recase [OF dist])
  then have "toLowerCase alphabet (concat uppers) = Inr lower \<longleftrightarrow>
             toLowerCase alphabet text = Inr lower"
    by (simp add: toLowerCase_def setCase_Inr_iff [OF toks] setCase_Inr_iff [OF retok])
  with up show ?thesis by simp
qed

theorem lower_of_upper_witness:
  "toUpperCase exampleAlphabet ''bB'' = Inr ''BB'' \<and>
   toLowerCase exampleAlphabet ''BB'' = Inr ''bb''"
proof -
  have dist: "distinct (getSymbols exampleAlphabet)"
    by (simp add: exampleAlphabet_def getSymbols_def)
  have toks: "splitSymbols exampleAlphabet ''bB'' = Inr [''b'', ''B'']"
    by (simp add: exampleAlphabet_def splitSymbols_def getSymbols_def)
  have cased: "\<forall>t \<in> set [''b'', ''B'']. \<exists>d. getSymbolInfo exampleAlphabet t = Inr d \<and>
                 (caseValue d = 0 \<or> caseValue d = 1)"
    by (simp add: exampleAlphabet_def)
  have ups: "mapSymbols (setCaseSymbol exampleAlphabet 1) [''b'', ''B''] = Inr [''B'', ''B'']"
    by (simp add: exampleAlphabet_def setCaseSymbol_def caseFilter_def)
  have retok: "splitSymbols exampleAlphabet (concat [''B'', ''B'']) = Inr [''B'', ''B'']"
    by (simp add: exampleAlphabet_def splitSymbols_def getSymbols_def)
  have low: "toLowerCase exampleAlphabet ''bB'' = Inr ''bb''"
    by (simp add: exampleAlphabet_def toLowerCase_def setCase_def splitSymbols_def
          getSymbols_def setCaseSymbol_def caseFilter_def)
  from lower_of_upper [OF dist toks cased ups retok, of "''bb''"] low
  show ?thesis by simp
qed


section \<open>Accent removal\<close>

lemma removeAccentLoop_filter:
  "removeAccentLoop alphabet d =
     (case filter (\<lambda>s. sortBase s = sortBase d \<and> accentRank s = 0 \<and> caseValue s = caseValue d)
             alphabet of
        [] \<Rightarrow> Inl (NoUnaccentedSymbol (symbol d))
      | m # ms \<Rightarrow> Inr (symbol m))"
  by (induction alphabet) auto

lemma removeAccentLoop_Inr:
  "removeAccentLoop alphabet d = Inr r \<Longrightarrow> \<exists>s \<in> set alphabet. symbol s = r \<and> accentRank s = 0"
  by (induction alphabet) (auto split: if_splits)

lemma stripSymbol_fixed:
  assumes dist: "distinct (getSymbols alphabet)"
      and st: "stripSymbol alphabet t = Inr r"
  shows "stripSymbol alphabet r = Inr r"
proof -
  from st obtain d where d: "getSymbolInfo alphabet t = Inr d"
    and rm: "removeSymbolAccent alphabet d = Inr r"
    by (auto simp: stripSymbol_def split: sum.splits)
  show ?thesis
  proof (cases "accentRank d = 0")
    case True
    with rm have "r = symbol d" by (simp add: removeSymbolAccent_def)
    with getSymbolInfo_Inr [OF d] have "r = t" by simp
    with st show ?thesis by simp
  next
    case False
    with rm have "removeAccentLoop alphabet d = Inr r" by (simp add: removeSymbolAccent_def)
    from removeAccentLoop_Inr [OF this] obtain s where
      s: "s \<in> set alphabet" "symbol s = r" "accentRank s = 0" by blast
    from getSymbolInfo_distinct [OF dist s(1)] s(2)
    have "getSymbolInfo alphabet r = Inr s" by simp
    then show ?thesis by (simp add: stripSymbol_def removeSymbolAccent_def s)
  qed
qed

lemma mapSymbols_fixed:
  "(\<And>t r. t \<in> set toks \<Longrightarrow> f t = Inr r \<Longrightarrow> f r = Inr r) \<Longrightarrow>
   mapSymbols f toks = Inr rs \<Longrightarrow> mapSymbols f rs = Inr rs"
proof (induction toks arbitrary: rs)
  case Nil
  then show ?case by auto
next
  case (Cons t toks)
  from Cons.prems(2) obtain r rs' where
    r: "f t = Inr r" and rs': "mapSymbols f toks = Inr rs'" and rs: "rs = r # rs'"
    by (auto split: sum.splits)
  have "f r = Inr r" using Cons.prems(1) [of t r] r by simp
  moreover have "mapSymbols f rs' = Inr rs'"
  proof (rule Cons.IH [OF _ rs'])
    fix t' r'
    assume "t' \<in> set toks" "f t' = Inr r'"
    then show "f r' = Inr r'" using Cons.prems(1) [of t' r'] by simp
  qed
  ultimately show ?case by (simp add: rs)
qed

lemma stripAccentsLoop_mapSymbols:
  "stripAccentsLoop alphabet toks result =
     (case mapSymbols (stripSymbol alphabet) toks of
        Inl e \<Rightarrow> Inl e
      | Inr rs \<Rightarrow> Inr (result @ concat rs))"
  by (induction toks arbitrary: result) (auto split: sum.splits)

text \<open>
  C7, as stated. In \<open>accentTable\<close> two rows have the rank and case of the
  accented row \<open>accentedE\<close> and no accent; \<^verbatim>\<open>removeSymbolAccent\<close> returns the
  symbol of the first and throws nothing.
\<close>

theorem removeSymbolAccent_ambiguity_counterexample:
  "accentRank accentedE \<noteq> 0 \<and>
   length (filter (\<lambda>s. sortBase s = sortBase accentedE \<and> accentRank s = 0 \<and>
              caseValue s = caseValue accentedE) accentTable) = 2 \<and>
   removeSymbolAccent accentTable accentedE = Inr ''e''"
  by (simp add: accentTable_def accentedE_def removeSymbolAccent_def)

text \<open>
  C7, amended. For an accented row (\<^verbatim>\<open>accentRank\<close> not 0),
  \<^verbatim>\<open>removeSymbolAccent\<close> looks through the table, in order, for a row with the
  same \<^verbatim>\<open>sortBase\<close>, \<^verbatim>\<open>accentRank\<close> 0 and the same \<^verbatim>\<open>caseValue\<close>: with no
  such row it throws the no-unaccented-form error, and otherwise it returns the
  symbol of the first such row, however many there are.
\<close>

theorem removeSymbolAccent_first_match:
  assumes "accentRank d \<noteq> 0"
      and "matches = filter (\<lambda>s. sortBase s = sortBase d \<and> accentRank s = 0 \<and>
                                   caseValue s = caseValue d) alphabet"
  shows "(matches = [] \<longrightarrow>
            removeSymbolAccent alphabet d = Inl (NoUnaccentedSymbol (symbol d))) \<and>
         (\<forall>m ms. matches = m # ms \<longrightarrow> removeSymbolAccent alphabet d = Inr (symbol m))"
  using assms by (simp add: removeSymbolAccent_def removeAccentLoop_filter)

theorem removeSymbolAccent_first_match_witness:
  "removeSymbolAccent accentTable accentedCapital = Inl (NoUnaccentedSymbol ''X'') \<and>
   removeSymbolAccent accentTable accentedE = Inr ''e''"
proof -
  have a: "accentRank accentedCapital \<noteq> 0" "accentRank accentedE \<noteq> 0"
    by (simp_all add: accentedCapital_def accentedE_def)
  have f1: "filter (\<lambda>s. sortBase s = sortBase accentedCapital \<and> accentRank s = 0 \<and>
              caseValue s = caseValue accentedCapital) accentTable = []"
    by (simp add: accentTable_def accentedCapital_def)
  have f2: "filter (\<lambda>s. sortBase s = sortBase accentedE \<and> accentRank s = 0 \<and>
              caseValue s = caseValue accentedE) accentTable
            = \<lparr>symbol = ''e'', winmac = None, sortBase = 1, accentRank = 0, caseValue = 0\<rparr> #
              [\<lparr>symbol = ''f'', winmac = None, sortBase = 1, accentRank = 0, caseValue = 0\<rparr>]"
    by (simp add: accentTable_def accentedE_def)
  from removeSymbolAccent_first_match [OF a(1) refl, of accentTable] f1
  have "removeSymbolAccent accentTable accentedCapital = Inl (NoUnaccentedSymbol ''X'')"
    by (simp add: accentedCapital_def)
  moreover from removeSymbolAccent_first_match [OF a(2) refl, of accentTable] f2
  have "removeSymbolAccent accentTable accentedE = Inr ''e''"
    by simp
  ultimately show ?thesis by simp
qed

text \<open>
  C9, as stated. In \<open>longAccentTable\<close> the text \<^verbatim>\<open>Aa\<close> is stripped to
  \<^verbatim>\<open>aa\<close>, which is read back as the one accented symbol \<^verbatim>\<open>aa\<close> and
  stripped to \<^verbatim>\<open>a\<close>.
\<close>

theorem stripAccents_counterexample:
  "stripAccents longAccentTable ''Aa'' = Inr ''aa'' \<and>
   stripAccents longAccentTable ''aa'' = Inr ''a''"
  by (simp add: longAccentTable_def stripAccents_def splitSymbols_def getSymbols_def
        stripSymbol_def removeSymbolAccent_def)


text \<open>
  C9, amended. Let the symbols of the table be pairwise distinct, let
  \<^verbatim>\<open>stripAccents\<close> return on \<open>text\<close>, and let its result split into exactly
  the unaccented symbols that replaced the tokens of \<open>text\<close>. Then
  \<^verbatim>\<open>stripAccents\<close> maps that result to itself.
\<close>

theorem stripAccents_fixed_point:
  assumes dist: "distinct (getSymbols alphabet)"
      and toks: "splitSymbols alphabet text = Inr tokens"
      and strip: "mapSymbols (stripSymbol alphabet) tokens = Inr stripped"
      and retok: "splitSymbols alphabet (concat stripped) = Inr stripped"
  shows "stripAccents alphabet text = Inr (concat stripped) \<and>
         stripAccents alphabet (concat stripped) = Inr (concat stripped)"
proof -
  have "mapSymbols (stripSymbol alphabet) stripped = Inr stripped"
    by (rule mapSymbols_fixed [OF _ strip]) (rule stripSymbol_fixed [OF dist])
  then show ?thesis
    by (simp add: stripAccents_def toks retok strip stripAccentsLoop_mapSymbols)
qed

theorem stripAccents_fixed_point_witness:
  "stripAccents longAccentTable ''A'' = Inr ''a'' \<and>
   stripAccents longAccentTable ''a'' = Inr ''a''"
proof -
  have dist: "distinct (getSymbols longAccentTable)"
    by (simp add: longAccentTable_def getSymbols_def)
  have toks: "splitSymbols longAccentTable ''A'' = Inr [''A'']"
    by (simp add: longAccentTable_def splitSymbols_def getSymbols_def)
  have strip: "mapSymbols (stripSymbol longAccentTable) [''A''] = Inr [''a'']"
    by (simp add: longAccentTable_def stripSymbol_def removeSymbolAccent_def)
  have retok: "splitSymbols longAccentTable (concat [''a'']) = Inr [''a'']"
    by (simp add: longAccentTable_def splitSymbols_def getSymbols_def)
  from stripAccents_fixed_point [OF dist toks strip retok] show ?thesis by simp
qed


section \<open>The empty text\<close>

text \<open>
  C10. On the empty string every text-level operation returns without an
  error: \<^verbatim>\<open>splitSymbols\<close> gives the empty sequence, and \<^verbatim>\<open>sortValue\<close>,
  \<^verbatim>\<open>setCase\<close> for either target case and \<^verbatim>\<open>stripAccents\<close> give the empty
  string, whatever the alphabet.
\<close>

theorem empty_text_operations:
  "splitSymbols alphabet [] = Inr [] \<and>
   sortValue alphabet [] = Inr [] \<and>
   setCase alphabet [] 0 = Inr [] \<and>
   setCase alphabet [] 1 = Inr [] \<and>
   stripAccents alphabet [] = Inr []"
  by (simp add: splitSymbols_def sortValue_def setCase_def stripAccents_def)

end
